theory Spec2Isabelle
  imports Main "HOL-Library.Sublist"
begin

section \<open>JavaScript strings and regular expressions\<close>

text \<open>
  The detector works on JavaScript strings with \<open>String.prototype.match\<close>,
  \<open>RegExp.prototype.test\<close> and \<open>String.prototype.includes\<close>. A string is modelled as a
  list of 8-bit characters (code units below 256), which covers every character the
  source's patterns name.

  A pattern is a syntax tree with the constructs the source's patterns use. Its
  meaning is that of a backtracking matcher: \<open>ends r (p, s)\<close> lists, in the order in
  which the matcher tries them, the positions at which a match of \<open>r\<close> that starts at
  \<open>(p, s)\<close> can stop. A position is the pair of the text before it, reversed, and the
  text after it. The matcher's answer at a start position is the head of that list.
\<close>

datatype re =
    Lit string
  | Cls "char \<Rightarrow> bool"
  | Seq re re
  | Alt re re
  | Opt re
  | Star re
  | Bol
  | Eoi
  | NotBehind string

definition isLineTerminator :: "char \<Rightarrow> bool" where
  "isLineTerminator c = (c = CHR 0x0A \<or> c = CHR 0x0D)"

fun ends :: "re \<Rightarrow> string \<times> string \<Rightarrow> (string \<times> string) list" where
  "ends (Lit w) (p, s) =
     (if take (length w) s = w then [(rev w @ p, drop (length w) s)] else [])"
| "ends (Cls P) (p, s) =
     (case s of [] \<Rightarrow> [] | c # s' \<Rightarrow> if P c then [(c # p, s')] else [])"
| "ends (Seq a b) st = concat (map (ends b) (ends a st))"
| "ends (Alt a b) st = ends a st @ ends b st"
| "ends (Opt a) st = ends a st @ [st]"
| "ends (Star a) st =
     concat (map (\<lambda>st'. if length (snd st') < length (snd st) then ends (Star a) st' else [])
                 (ends a st)) @ [st]"
| "ends Bol (p, s) =
     (case p of [] \<Rightarrow> [(p, s)] | c # _ \<Rightarrow> if isLineTerminator c then [(p, s)] else [])"
| "ends Eoi (p, s) = (if s = [] then [(p, s)] else [])"
| "ends (NotBehind w) (p, s) = (if take (length w) p = rev w then [] else [(p, s)])"

text \<open>\<open>a+\<close> is \<open>a\<close> followed by \<open>a*\<close>; sequences and alternatives of several parts.\<close>

definition Plus :: "re \<Rightarrow> re" where
  "Plus a = Seq a (Star a)"

fun seqs :: "re list \<Rightarrow> re" where
  "seqs [] = Lit []"
| "seqs [r] = r"
| "seqs (r # rs) = Seq r (seqs rs)"

fun alts :: "string list \<Rightarrow> re" where
  "alts [] = Cls (\<lambda>_. False)"
| "alts [w] = Lit w"
| "alts (w # ws) = Alt (Lit w) (alts ws)"

text \<open>
  The first match at or after a position: the start position and the stop position
  of the leftmost start at which the pattern matches.
\<close>

fun search :: "re \<Rightarrow> string \<Rightarrow> string \<Rightarrow> ((string \<times> string) \<times> (string \<times> string)) option" where
  "search r p [] = (case ends r (p, []) of [] \<Rightarrow> None | e # _ \<Rightarrow> Some ((p, []), e))"
| "search r p (c # s) =
     (case ends r (p, c # s) of [] \<Rightarrow> search r (c # p) s | e # _ \<Rightarrow> Some ((p, c # s), e))"

definition matched :: "(string \<times> string) \<times> (string \<times> string) \<Rightarrow> string" where
  "matched m = take (length (snd (fst m)) - length (snd (snd m))) (snd (fst m))"

text \<open>\<open>str.match(r)\<close> for a pattern without the \<open>g\<close> flag: the matched text, or null.\<close>

definition js_match :: "re \<Rightarrow> string \<Rightarrow> string option" where
  "js_match r s = map_option matched (search r [] s)"

text \<open>\<open>r.test(str)\<close> for a pattern without the \<open>g\<close> flag.\<close>

definition js_test :: "re \<Rightarrow> string \<Rightarrow> bool" where
  "js_test r s = (search r [] s \<noteq> None)"

lemma ends_Star_mem:
  "e \<in> set (ends (Star a) st) \<longleftrightarrow>
     e = st \<or> (\<exists>m \<in> set (ends a st). length (snd m) < length (snd st) \<and> e \<in> set (ends (Star a) m))"
  by (subst ends.simps(6)) (auto simp del: ends.simps split: if_splits)

lemma ends_length: "e \<in> set (ends r st) \<Longrightarrow> length (snd e) \<le> length (snd st)"
proof (induction r st arbitrary: e rule: ends.induct)
  case (1 w p s)
  then show ?case by (simp split: if_splits)
next
  case (2 P p s)
  then show ?case by (cases s) (simp_all split: if_splits)
next
  case (3 a b st)
  from "3.prems" obtain m where m: "m \<in> set (ends a st)" and e: "e \<in> set (ends b m)"
    by auto
  from "3.IH"(1)[OF m] "3.IH"(2)[OF m e] show ?case by simp
next
  case (4 a b st)
  from "4.prems" have "e \<in> set (ends a st) \<or> e \<in> set (ends b st)" by auto
  then show ?case
  proof
    assume "e \<in> set (ends a st)"
    then show ?thesis by (rule "4.IH"(1))
  next
    assume "e \<in> set (ends b st)"
    then show ?thesis by (rule "4.IH"(2))
  qed
next
  case (5 a st)
  from "5.prems" have "e \<in> set (ends a st) \<or> e = st" by auto
  then show ?case
  proof
    assume "e \<in> set (ends a st)"
    then show ?thesis by (rule "5.IH")
  next
    assume "e = st"
    then show ?thesis by simp
  qed
next
  case (6 a st)
  show ?case
  proof (cases "e = st")
    case True
    then show ?thesis by simp
  next
    case False
    from "6.prems" False obtain m where m: "m \<in> set (ends a st)"
      and lt: "length (snd m) < length (snd st)" and e: "e \<in> set (ends (Star a) m)"
      unfolding ends_Star_mem[of e a st] by blast
    from "6.IH"(2)[OF m lt e] lt show ?thesis by simp
  qed
next
  case (7 p s)
  then show ?case by (cases p) (simp_all split: if_splits)
next
  case (8 p s)
  then show ?case by (simp split: if_splits)
next
  case (9 w p s)
  then show ?case by (simp split: if_splits)
qed

lemma search_length:
  "search r p s = Some (b, e) \<Longrightarrow> length (snd b) \<le> length s \<and> length (snd e) \<le> length (snd b)"
proof (induction s arbitrary: p)
  case Nil
  then show ?case
    using ends_length[of e r "(p, [])"] by (auto split: list.splits)
next
  case (Cons c s)
  show ?case
  proof (cases "ends r (p, c # s)")
    case Nil
    with Cons.prems have "search r (c # p) s = Some (b, e)" by simp
    from Cons.IH[OF this] show ?thesis by simp
  next
    case (Cons e' es)
    with Cons.prems have "b = (p, c # s)" "e = e'" by auto
    with Cons show ?thesis
      using ends_length[of e r "(p, c # s)"] by simp
  qed
qed

text \<open>
  \<open>str.match(r)\<close> for a pattern with the \<open>g\<close> flag: every match, left to right, each
  search starting where the last match stopped (one further after an empty match).
\<close>

function matches_from :: "re \<Rightarrow> string \<Rightarrow> string \<Rightarrow> string list" where
  "matches_from r p s =
     (case search r p s of
        None \<Rightarrow> []
      | Some (b, e) \<Rightarrow>
          matched (b, e) #
          (if length (snd e) < length (snd b) then matches_from r (fst e) (snd e)
           else (case snd e of [] \<Rightarrow> [] | c # s' \<Rightarrow> matches_from r (c # fst e) s')))"
  by pat_completeness auto
termination
proof (relation "measure (\<lambda>(r, p, s). length s)")
  show "wf (measure (\<lambda>(r, p, s). length s))" by simp
next
  fix r p s x b e
  assume "search r p s = Some x" "(b, e) = x" "length (snd e) < length (snd b)"
  then show "((r, fst e, snd e), (r, p, s)) \<in> measure (\<lambda>(r, p, s). length s)"
    using search_length[of r p s b e] by (cases e) simp
next
  fix r p s x b e c s'
  assume "search r p s = Some x" "(b, e) = x" "snd e = c # s'"
  then show "((r, c # fst e, s'), (r, p, s)) \<in> measure (\<lambda>(r, p, s). length s)"
    using search_length[of r p s b e] by (cases e) simp
qed

definition js_match_g :: "re \<Rightarrow> string \<Rightarrow> string list option" where
  "js_match_g r s = (case matches_from r [] s of [] \<Rightarrow> None | ms \<Rightarrow> Some ms)"

text \<open>\<open>str.includes(w)\<close>.\<close>

fun js_includes :: "string \<Rightarrow> string \<Rightarrow> bool" where
  "js_includes [] w = (w = [])"
| "js_includes (c # s) w = (take (length w) (c # s) = w \<or> js_includes s w)"

text \<open>\<open>str.split('\n')\<close>: the pieces between line feeds.\<close>

fun split_from :: "string \<Rightarrow> string \<Rightarrow> string list" where
  "split_from cur [] = [rev cur]"
| "split_from cur (c # s) =
     (if c = CHR 0x0A then rev cur # split_from [] s else split_from (c # cur) s)"

definition split_lines :: "string \<Rightarrow> string list" where
  "split_lines s = split_from [] s"

text \<open>A number in a template literal: its decimal digits.\<close>

fun digit :: "nat \<Rightarrow> char" where
  "digit n = char_of (48 + n)"

function showNat :: "nat \<Rightarrow> string" where
  "showNat n = (if n < 10 then [digit n] else showNat (n div 10) @ [digit (n mod 10)])"
  by pat_completeness auto
termination
proof (relation "measure (\<lambda>n. n)")
  show "wf (measure (\<lambda>n::nat. n))" by simp
next
  fix n :: nat
  assume "\<not> n < 10"
  then have "n div 10 < n" by simp
  then show "(n div 10, n) \<in> measure (\<lambda>n. n)" by simp
qed


section \<open>Character classes and the patterns of the source\<close>

definition isSpace :: "char \<Rightarrow> bool" where
  "isSpace c = (c \<in> set [CHR 0x09, CHR 0x0A, CHR 0x0B, CHR 0x0C, CHR 0x0D, CHR 0x20, CHR 0xA0])"

definition isWord :: "char \<Rightarrow> bool" where
  "isWord c =
     (let n = (of_char c :: nat)
      in (48 \<le> n \<and> n \<le> 57) \<or> (65 \<le> n \<and> n \<le> 90) \<or> n = 95 \<or> (97 \<le> n \<and> n \<le> 122))"

definition isQuote :: "char \<Rightarrow> bool" where
  "isQuote c = (c = CHR 0x27 \<or> c = CHR 0x22)"

definition notQuote :: "char \<Rightarrow> bool" where
  "notQuote c = (\<not> isQuote c)"

definition notBrace :: "char \<Rightarrow> bool" where
  "notBrace c = (c \<noteq> CHR ''}'')"

definition isSep :: "char \<Rightarrow> bool" where
  "isSep c = (c = CHR ''/'' \<or> c = CHR 0x5C)"

definition anyChar :: "char \<Rightarrow> bool" where
  "anyChar c = (\<not> isLineTerminator c)"

definition sourceExts :: "string list" where
  "sourceExts = [''ts'', ''tsx'', ''js'', ''jsx'', ''mjs'', ''cjs'']"

text \<open>\<^verbatim>\<open>/\.(test|spec)\.(ts|tsx|js|jsx|mjs|cjs)$/\<close>\<close>

definition DEFAULT_TEST_PATTERNS :: "re list" where
  "DEFAULT_TEST_PATTERNS =
     [seqs [Lit ''.'', alts [''test'', ''spec''], Lit ''.'', alts sourceExts, Eoi]]"

text \<open>\<^verbatim>\<open>/^\s*(function|class|const)\s+\w+(Buffer|Parser|Handler|Helper|Manager|Service|Client|Builder|Strategy)/gm\<close>\<close>

definition re_inline :: re where
  "re_inline =
     seqs [Bol, Star (Cls isSpace), alts [''function'', ''class'', ''const''],
           Plus (Cls isSpace), Plus (Cls isWord),
           alts [''Buffer'', ''Parser'', ''Handler'', ''Helper'', ''Manager'', ''Service'',
                 ''Client'', ''Builder'', ''Strategy'']]"

text \<open>\<^verbatim>\<open>/import type|interface \w+|type \w+ =/\<close>\<close>

definition re_typeImports :: re where
  "re_typeImports =
     Alt (Lit ''import type'')
       (Alt (seqs [Lit ''interface '', Plus (Cls isWord)])
            (seqs [Lit ''type '', Plus (Cls isWord), Lit '' ='']))"

text \<open>\<^verbatim>\<open>/render\(|renderHook\(|new \w+\(|\.toHaveBeenCalled/\<close>\<close>

definition re_runtimeTests :: re where
  "re_runtimeTests =
     Alt (Lit ''render('')
       (Alt (Lit ''renderHook('')
          (Alt (seqs [Lit ''new '', Plus (Cls isWord), Lit ''(''])
               (Lit ''.toHaveBeenCalled'')))"

text \<open>\<^verbatim>\<open>/const \w+:\s*\w+\s*=\s*\{[^}]+\};\s+expect\(\w+\.\w+\)/g\<close>\<close>

definition re_mockAssertions :: re where
  "re_mockAssertions =
     seqs [Lit ''const '', Plus (Cls isWord), Lit '':'', Star (Cls isSpace), Plus (Cls isWord),
           Star (Cls isSpace), Lit ''='', Star (Cls isSpace), Lit ''{'', Plus (Cls notBrace),
           Lit ''};'', Plus (Cls isSpace), Lit ''expect('', Plus (Cls isWord), Lit ''.'',
           Plus (Cls isWord), Lit '')'']"

text \<open>\<^verbatim>\<open>/from ['"]\.\.+(\/[^'"]*)?(?<!\.test)(?<!\.spec)['"]/\<close>\<close>

definition re_sourceImports :: re where
  "re_sourceImports =
     seqs [Lit ''from '', Cls isQuote, Lit ''.'', Plus (Lit ''.''),
           Opt (Seq (Lit ''/'') (Star (Cls notQuote))),
           NotBehind ''.test'', NotBehind ''.spec'', Cls isQuote]"

text \<open>\<^verbatim>\<open>/[/\\](integration|e2e)\.test\.(ts|tsx|js|jsx|mjs|cjs)$/\<close>\<close>

definition re_integration :: re where
  "re_integration =
     seqs [Cls isSep, alts [''integration'', ''e2e''], Lit ''.test.'', alts sourceExts, Eoi]"

text \<open>\<^verbatim>\<open>/expect\(typeof|expect\(.*\)\.toBe\(['"](?:string|number|boolean)/g\<close>\<close>

definition re_builtins :: re where
  "re_builtins =
     Alt (Lit ''expect(typeof'')
         (seqs [Lit ''expect('', Star (Cls anyChar), Lit '').toBe('', Cls isQuote,
                alts [''string'', ''number'', ''boolean'']])"

text \<open>\<^verbatim>\<open>/expect\(/g\<close>\<close>

definition re_expect :: re where
  "re_expect = Lit ''expect(''"

text \<open>\<^verbatim>\<open>/fetch\(|request\(|axios\.|supertest/\<close>\<close>

definition re_fetch :: re where
  "re_fetch = alts [''fetch('', ''request('', ''axios.'', ''supertest'']"

text \<open>\<^verbatim>\<open>/render\(/\<close>\<close>

definition re_render :: re where
  "re_render = Lit ''render(''"

section \<open>The analysis of one file\<close>

datatype confidence = High | Medium | Low

text \<open>The interface \<open>SuspiciousTest\<close>; its field \<open>file\<close> is \<open>file_path\<close> here.\<close>

record SuspiciousTest =
  file_path :: string
  reasons :: "string list"
  confidence :: confidence
  lineCount :: nat

text \<open>The reason strings of the seven detectors.\<close>

definition reason1 :: "nat \<Rightarrow> string" where
  "reason1 n = ''Defines '' @ showNat n @ '' inline implementation(s) instead of importing real ones''"

definition reason2 :: string where
  "reason2 = ''Appears to test TypeScript types, not runtime behavior''"

definition reason3 :: "nat \<Rightarrow> string" where
  "reason3 n = ''Creates '' @ showNat n @ '' mock objects and asserts on hardcoded values''"

definition reason4 :: string where
  "reason4 = ''No imports from actual implementation (only test utilities)''"

definition reason5 :: string where
  "reason5 = ''Contains comments admitting these aren'' @ [CHR 0x27] @ ''t real tests''"

definition reason6 :: string where
  "reason6 = ''More than 50% of assertions test JavaScript built-ins (typeof, etc)''"

definition reason7 :: string where
  "reason7 = ''Integration test that never makes HTTP requests or renders components''"

text \<open>
  The conditions of \<open>analyzeTestFile\<close>, each under the name of the variable that holds
  it in the source.
\<close>

definition inlineImplementations :: "string \<Rightarrow> string list option" where
  "inlineImplementations content = js_match_g re_inline content"

definition hasTypeImports :: "string \<Rightarrow> bool" where
  "hasTypeImports content = (js_match re_typeImports content \<noteq> None)"

definition hasRuntimeTests :: "string \<Rightarrow> bool" where
  "hasRuntimeTests content = (js_match re_runtimeTests content \<noteq> None)"

definition mockAssertions :: "string \<Rightarrow> string list option" where
  "mockAssertions content = js_match_g re_mockAssertions content"

definition hasSourceImports :: "string \<Rightarrow> bool" where
  "hasSourceImports content = (js_match re_sourceImports content \<noteq> None)"

definition hasTestingLibImports :: "string \<Rightarrow> bool" where
  "hasTestingLibImports content = js_includes content ''@testing-library''"

definition isIntegrationTest :: "string \<Rightarrow> bool" where
  "isIntegrationTest filePath = js_test re_integration filePath"

definition testsBuiltins :: "string \<Rightarrow> string list option" where
  "testsBuiltins content = js_match_g re_builtins content"

definition totalExpects :: "string \<Rightarrow> nat" where
  "totalExpects content = (case js_match_g re_expect content of None \<Rightarrow> 0 | Some ms \<Rightarrow> length ms)"

definition hasFetch :: "string \<Rightarrow> bool" where
  "hasFetch content = (js_match re_fetch content \<noteq> None)"

definition hasRender :: "string \<Rightarrow> bool" where
  "hasRender content = (js_match re_render content \<noteq> None)"

text \<open>
  The seven detector blocks, in the source's order; each pushes at most one reason.
  In detector 6 the source compares the quotient of two positive counts with 0.5,
  which is the comparison of twice the first count with the second.
\<close>

definition detector1 :: "string \<Rightarrow> string list" where
  "detector1 content =
     (case inlineImplementations content of
        None \<Rightarrow> []
      | Some ms \<Rightarrow> if length ms > 0 then [reason1 (length ms)] else [])"

definition detector2 :: "string \<Rightarrow> string list" where
  "detector2 content =
     (if hasTypeImports content \<and> \<not> hasRuntimeTests content then [reason2] else [])"

definition detector3 :: "string \<Rightarrow> string list" where
  "detector3 content =
     (case mockAssertions content of
        None \<Rightarrow> []
      | Some ms \<Rightarrow> if length ms > 3 then [reason3 (length ms)] else [])"

definition detector4 :: "string \<Rightarrow> string \<Rightarrow> string list" where
  "detector4 filePath content =
     (if hasTestingLibImports content \<and> \<not> hasSourceImports content \<and> \<not> isIntegrationTest filePath
      then [reason4] else [])"

definition detector5 :: "string \<Rightarrow> string list" where
  "detector5 content =
     (if js_includes content ''In a real test'' \<or> js_includes content ''would be actual''
      then [reason5] else [])"

definition detector6 :: "string \<Rightarrow> string list" where
  "detector6 content =
     (case testsBuiltins content of
        None \<Rightarrow> []
      | Some ms \<Rightarrow>
          if totalExpects content > 0 \<and> 2 * length ms > totalExpects content
          then [reason6] else [])"

definition detector7 :: "string \<Rightarrow> string \<Rightarrow> string list" where
  "detector7 filePath content =
     (if isIntegrationTest filePath
      then (if \<not> hasFetch content \<and> \<not> hasRender content then [reason7] else [])
      else [])"

text \<open>The array \<open>reasons\<close> after the seven blocks.\<close>

definition collectReasons :: "string \<Rightarrow> string \<Rightarrow> string list" where
  "collectReasons filePath content =
     detector1 content @ detector2 content @ detector3 content @ detector4 filePath content @
     detector5 content @ detector6 content @ detector7 filePath content"

text \<open>The verdict computed from \<open>reasons.length\<close>.\<close>

definition confidenceOf :: "nat \<Rightarrow> confidence" where
  "confidenceOf n = (if n \<ge> 3 then High else if n \<ge> 2 then Medium else Low)"

text \<open>What \<open>analyzeTestFile\<close> does once the file's text is read.\<close>

definition analyzeContent :: "string \<Rightarrow> string \<Rightarrow> SuspiciousTest option" where
  "analyzeContent filePath content =
     (let lines = split_lines content;
          rs = collectReasons filePath content
      in if length rs = 0 then None
         else Some \<lparr> file_path = filePath, reasons = rs, confidence = confidenceOf (length rs),
                      lineCount = length lines \<rparr>)"


section \<open>The file system\<close>

text \<open>
  The engine reads the file system through \<open>readdirSync\<close>, \<open>statSync\<close> and
  \<open>readFileSync\<close>. What a traversal finds below a directory is a finite tree:
  a node is a file, a directory with its entries in the order \<open>readdirSync\<close> returns
  them, a directory whose listing raises, or an entry on which \<open>statSync\<close> raises.
  Reading a file's text is a separate function of the path, so that a file that was
  listed may still fail to be read. The tree is finite: a cycle of symbolic links,
  which the traversal leaves only when the operating system refuses the path, is not
  modelled. \<open>lookup\<close> gives the tree found at a directory the caller names.
\<close>

datatype node = File | Dir "(string \<times> node) list" | Unreadable | Broken

datatype error = ENOENT | EACCES | EISDIR

record filesystem =
  lookup :: "string \<Rightarrow> node"
  readFileSync :: "string \<Rightarrow> error + string"

fun isDirectory :: "node \<Rightarrow> bool" where
  "isDirectory (Dir _) = True"
| "isDirectory Unreadable = True"
| "isDirectory _ = False"

subsection \<open>\<open>path.join\<close> (POSIX)\<close>

fun split_slash :: "string \<Rightarrow> string \<Rightarrow> string list" where
  "split_slash cur [] = [rev cur]"
| "split_slash cur (c # s) =
     (if c = CHR ''/'' then rev cur # split_slash [] s else split_slash (c # cur) s)"

text \<open>
  One segment of the path against the segments kept so far: empty segments and
  \<open>.\<close> are dropped, \<open>..\<close> removes the last kept segment (or is kept itself where
  the path may rise above its start), any other segment is kept.
\<close>

definition normalizeStep :: "bool \<Rightarrow> string list \<Rightarrow> string \<Rightarrow> string list" where
  "normalizeStep allowAboveRoot res seg =
     (if seg = [] \<or> seg = ''.'' then res
      else if seg = ''..'' then
        (if res \<noteq> [] \<and> last res \<noteq> ''..'' then butlast res
         else if allowAboveRoot then res @ [''..''] else res)
      else res @ [seg])"

fun join_slash :: "string list \<Rightarrow> string" where
  "join_slash [] = []"
| "join_slash [s] = s"
| "join_slash (s # ss) = s @ ''/'' @ join_slash ss"

definition normalizeString :: "string \<Rightarrow> bool \<Rightarrow> string" where
  "normalizeString path allowAboveRoot =
     join_slash (foldl (normalizeStep allowAboveRoot) [] (split_slash [] path))"

definition normalize :: "string \<Rightarrow> string" where
  "normalize path =
     (if path = [] then ''.''
      else
        (let isAbsolute = (hd path = CHR ''/'');
             trailingSeparator = (last path = CHR ''/'');
             path' = normalizeString path (\<not> isAbsolute)
         in if path' = [] then (if isAbsolute then ''/'' else if trailingSeparator then ''./'' else ''.'')
            else (let path'' = (if trailingSeparator then path' @ ''/'' else path')
                  in if isAbsolute then ''/'' @ path'' else path'')))"

definition join :: "string \<Rightarrow> string \<Rightarrow> string" where
  "join a b =
     (if a = [] \<and> b = [] then ''.''
      else if a = [] then normalize b
      else if b = [] then normalize a
      else normalize (a @ ''/'' @ b))"

subsection \<open>\<open>findTestFiles\<close>\<close>

text \<open>
  \<open>findTestFilesAt n dir patterns\<close> is \<open>findTestFiles(dir, patterns)\<close> where the
  file system holds \<open>n\<close> at \<open>dir\<close>. \<open>scanItems\<close> is its loop over the entries, with
  the array \<open>files\<close> collected so far: when \<open>statSync\<close> raises, the \<open>catch\<close> block
  ends the loop and the files found until then are returned.
\<close>

fun findTestFilesAt :: "node \<Rightarrow> string \<Rightarrow> re list \<Rightarrow> string list"
  and scanItems :: "(string \<times> node) list \<Rightarrow> string \<Rightarrow> re list \<Rightarrow> string list \<Rightarrow> string list" where
  "findTestFilesAt (Dir items) dir patterns = scanItems items dir patterns []"
| "findTestFilesAt File dir patterns = []"
| "findTestFilesAt Unreadable dir patterns = []"
| "findTestFilesAt Broken dir patterns = []"
| "scanItems [] dir patterns files = files"
| "scanItems ((item, n) # rest) dir patterns files =
     (let fullPath = join dir item
      in if n = Broken then files
         else if isDirectory n \<and> \<not> js_includes item ''node_modules'' \<and> \<not> js_includes item ''dist''
         then scanItems rest dir patterns (files @ findTestFilesAt n fullPath patterns)
         else if list_ex (\<lambda>pattern. js_test pattern item) patterns
         then scanItems rest dir patterns (files @ [fullPath])
         else scanItems rest dir patterns files)"

definition findTestFiles :: "filesystem \<Rightarrow> string \<Rightarrow> re list \<Rightarrow> string list" where
  "findTestFiles fs dir patterns = findTestFilesAt (lookup fs dir) dir patterns"

section \<open>The scan\<close>

text \<open>\<open>analyzeTestFile\<close>: the read may raise; nothing in the function catches it.\<close>

definition analyzeTestFile :: "filesystem \<Rightarrow> string \<Rightarrow> error + SuspiciousTest option" where
  "analyzeTestFile fs filePath =
     (case readFileSync fs filePath of
        Inl e \<Rightarrow> Inl e
      | Inr content \<Rightarrow> Inr (analyzeContent filePath content))"

record DetectorOptions =
  directories :: "string list option"
  minConfidence :: "string option"
  testPatterns :: "re list option"

text \<open>\<open>allTestFiles.map(analyzeTestFile)\<close>: the first error that is raised ends it.\<close>

fun mapAnalyze :: "filesystem \<Rightarrow> string list \<Rightarrow> error + SuspiciousTest option list" where
  "mapAnalyze fs [] = Inr []"
| "mapAnalyze fs (f # fs') =
     (case analyzeTestFile fs f of
        Inl e \<Rightarrow> Inl e
      | Inr r \<Rightarrow> (case mapAnalyze fs fs' of Inl e \<Rightarrow> Inl e | Inr rs \<Rightarrow> Inr (r # rs)))"

text \<open>\<open>.filter(result => result !== null)\<close>\<close>

fun notNull :: "'a option list \<Rightarrow> 'a list" where
  "notNull [] = []"
| "notNull (None # rs) = notNull rs"
| "notNull (Some r # rs) = r # notNull rs"

text \<open>
  The object \<open>confidenceLevels\<close>, read at a key: the three keys have a number; at any
  other key the read gives \<open>undefined\<close> or a member inherited from \<open>Object.prototype\<close>,
  which is no number (\<open>None\<close>). A comparison \<open>>=\<close> with such a value is false.
\<close>

definition confidenceLevels :: "string \<Rightarrow> nat option" where
  "confidenceLevels k =
     (if k = ''high'' then Some 3 else if k = ''medium'' then Some 2
      else if k = ''low'' then Some 1 else None)"

fun keyOf :: "confidence \<Rightarrow> string" where
  "keyOf High = ''high''"
| "keyOf Medium = ''medium''"
| "keyOf Low = ''low''"

fun js_ge :: "nat option \<Rightarrow> nat option \<Rightarrow> bool" where
  "js_ge (Some a) (Some b) = (a \<ge> b)"
| "js_ge _ _ = False"

text \<open>\<open>confidenceLevels[test.confidence]\<close>, at the confidence of a record.\<close>

definition levelOf :: "confidence \<Rightarrow> nat" where
  "levelOf c = (case confidenceLevels (keyOf c) of Some n \<Rightarrow> n | None \<Rightarrow> 0)"

text \<open>The comparator given to \<open>sort\<close>.\<close>

definition compareTests :: "SuspiciousTest \<Rightarrow> SuspiciousTest \<Rightarrow> int" where
  "compareTests a b =
     (let confidenceDiff = int (levelOf (confidence b)) - int (levelOf (confidence a))
      in if confidenceDiff \<noteq> 0 then confidenceDiff
         else int (lineCount b) - int (lineCount a))"

text \<open>
  \<open>Array.prototype.sort\<close> is stable, which fixes its result for a comparator that is
  a total preorder: each element is placed before the first later element it does not
  sort after.
\<close>

fun insertBy :: "('a \<Rightarrow> 'a \<Rightarrow> int) \<Rightarrow> 'a \<Rightarrow> 'a list \<Rightarrow> 'a list" where
  "insertBy cmp x [] = [x]"
| "insertBy cmp x (y # ys) = (if cmp x y \<le> 0 then x # y # ys else y # insertBy cmp x ys)"

definition js_sort :: "('a \<Rightarrow> 'a \<Rightarrow> int) \<Rightarrow> 'a list \<Rightarrow> 'a list" where
  "js_sort cmp xs = foldr (insertBy cmp) xs []"

definition allTestFiles :: "filesystem \<Rightarrow> DetectorOptions \<Rightarrow> string list" where
  "allTestFiles fs options =
     (let dirs = (case directories options of None \<Rightarrow> [''src'', ''api''] | Some d \<Rightarrow> d);
          pats = (case testPatterns options of None \<Rightarrow> DEFAULT_TEST_PATTERNS | Some p \<Rightarrow> p)
      in concat (map (\<lambda>dir. findTestFiles fs dir pats) dirs))"

definition filterByConfidence :: "string \<Rightarrow> SuspiciousTest list \<Rightarrow> SuspiciousTest list" where
  "filterByConfidence minConf suspicious =
     (let minLevel = confidenceLevels minConf
      in filter (\<lambda>test. js_ge (confidenceLevels (keyOf (confidence test))) minLevel) suspicious)"

definition detectUselessTests :: "filesystem \<Rightarrow> DetectorOptions \<Rightarrow> error + SuspiciousTest list" where
  "detectUselessTests fs options =
     (let minConf = (case minConfidence options of None \<Rightarrow> ''low'' | Some c \<Rightarrow> c)
      in case mapAnalyze fs (allTestFiles fs options) of
           Inl e \<Rightarrow> Inl e
         | Inr results \<Rightarrow>
             Inr (js_sort compareTests (filterByConfidence minConf (notNull results))))"

section \<open>Notions used in the statements\<close>

text \<open>\<open>before a b\<close>: the comparator does not put \<open>a\<close> after \<open>b\<close>.\<close>

definition before :: "SuspiciousTest \<Rightarrow> SuspiciousTest \<Rightarrow> bool" where
  "before a b \<longleftrightarrow> compareTests a b \<le> 0"

text \<open>
  \<open>hasEntry n items\<close>: from the node \<open>n\<close>, the names \<open>items\<close> lead, one directory
  entry after the other, to an entry of the tree.
\<close>

fun hasEntry :: "node \<Rightarrow> string list \<Rightarrow> bool" where
  "hasEntry n [] = True"
| "hasEntry (Dir es) (i # is) = list_ex (\<lambda>e. fst e = i \<and> hasEntry (snd e) is) es"
| "hasEntry File (i # is) = False"
| "hasEntry Unreadable (i # is) = False"
| "hasEntry Broken (i # is) = False"

text \<open>The names of the directories that \<open>findTestFiles\<close> does not enter.\<close>

definition excluded :: "string \<Rightarrow> bool" where
  "excluded item = (js_includes item ''node_modules'' \<or> js_includes item ''dist'')"

text \<open>
  \<open>reaches n dir patterns p\<close>: the path \<open>p\<close> is \<open>dir\<close> joined with a chain of entries
  below \<open>n\<close>, of which all but the last are not excluded and the last matches a pattern.
\<close>

definition reaches :: "node \<Rightarrow> string \<Rightarrow> re list \<Rightarrow> string \<Rightarrow> bool" where
  "reaches n dir patterns p \<longleftrightarrow>
     (\<exists>items. items \<noteq> [] \<and> p = foldl join dir items \<and> hasEntry n items \<and>
        (\<forall>d \<in> set (butlast items). \<not> excluded d) \<and>
        list_ex (\<lambda>pattern. js_test pattern (last items)) patterns)"

section \<open>Example inputs\<close>

text \<open>
  File systems, texts and records at which the theorems below are applied:
  \<open>fs_plain\<close>, where every file holds one assertion on a sum; two texts that import
  a testing library and a component, from the same and from the parent directory;
  \<open>fs_four\<close>, a directory \<open>src\<close> of four test files, three of which have reasons, and
  the records \<open>rec_a\<close>, \<open>rec_b\<close>, \<open>rec_c\<close> of those; \<open>fs_vanished\<close>, where the first
  of two listed files cannot be read; \<open>fs_tree\<close>, with test files below \<open>node_modules\<close>,
  \<open>lib\<close> and \<open>dist\<close>.
\<close>

definition fs_plain :: filesystem where
  "fs_plain = \<lparr> lookup = (\<lambda>_. Broken),
            readFileSync = (\<lambda>_. Inr ''expect(add(1, 2)).toBe(3);'') \<rparr>"

definition txt_sibling :: string where
  "txt_sibling =
     ''import { render } from '' @ [CHR 0x27] @ ''@testing-library/react'' @ [CHR 0x27] @ '';'' @
     [CHR 0x0A] @
     ''import { Button } from '' @ [CHR 0x27] @ ''./Button'' @ [CHR 0x27] @ '';''"

definition txt_parent :: string where
  "txt_parent =
     ''import { render } from '' @ [CHR 0x27] @ ''@testing-library/react'' @ [CHR 0x27] @ '';'' @
     [CHR 0x0A] @
     ''import { Button } from '' @ [CHR 0x27] @ ''../Button'' @ [CHR 0x27] @ '';''"

definition fs_four :: filesystem where
  "fs_four =
     \<lparr> lookup = (\<lambda>dir. if dir = ''src''
                 then Dir [(''a.test.ts'', File), (''b.test.ts'', File), (''c.test.ts'', File),
                           (''d.test.ts'', File)]
                 else Broken),
       readFileSync = (\<lambda>p.
          if p = ''src/a.test.ts'' then Inr ''// would be actual''
          else if p = ''src/b.test.ts'' then Inr (''// In a real test'' @ [CHR 0x0A] @ ''x'')
          else if p = ''src/c.test.ts''
            then Inr (''import type X'' @ [CHR 0x0A] @ ''class FooParser'' @ [CHR 0x0A] @
                      ''// would be actual'')
          else if p = ''src/d.test.ts'' then Inr ''expect(add(1, 2)).toBe(3);''
          else Inl ENOENT) \<rparr>"

definition opts :: "string option \<Rightarrow> DetectorOptions" where
  "opts mc = \<lparr> directories = None, minConfidence = mc, testPatterns = None \<rparr>"

definition rec_a :: SuspiciousTest where
  "rec_a = \<lparr> file_path = ''src/a.test.ts'', reasons = [reason5], confidence = Low, lineCount = 1 \<rparr>"

definition rec_b :: SuspiciousTest where
  "rec_b = \<lparr> file_path = ''src/b.test.ts'', reasons = [reason5], confidence = Low, lineCount = 2 \<rparr>"

definition rec_c :: SuspiciousTest where
  "rec_c = \<lparr> file_path = ''src/c.test.ts'', reasons = [reason1 1, reason2, reason5],
              confidence = High, lineCount = 3 \<rparr>"

definition fs_vanished :: filesystem where
  "fs_vanished =
     \<lparr> lookup = (\<lambda>dir. if dir = ''src''
                 then Dir [(''a.test.ts'', File), (''b.test.ts'', File)]
                 else Broken),
       readFileSync = (\<lambda>p.
          if p = ''src/b.test.ts'' then Inr ''// would be actual''
          else Inl ENOENT) \<rparr>"

definition fs_tree :: filesystem where
  "fs_tree =
     \<lparr> lookup = (\<lambda>dir. if dir = ''src''
                 then Dir [(''node_modules'', Dir [(''x.test.ts'', File)]),
                           (''lib'', Dir [(''y.test.ts'', File), (''y.ts'', File)]),
                           (''dist'', Dir [(''z.test.ts'', File)])]
                 else if dir = ''dist'' then Dir [(''z.test.ts'', File)]
                 else Broken),
       readFileSync = (\<lambda>p. Inl ENOENT) \<rparr>"

section \<open>Properties\<close>

subsection \<open>Facts about the matcher\<close>

lemma search_intro:
  "ends r (rev pre @ p, suf) \<noteq> [] \<Longrightarrow> search r p (pre @ suf) \<noteq> None"
proof (induction pre arbitrary: p)
  case Nil
  then show ?case by (cases suf) (auto split: list.splits)
next
  case (Cons c pre)
  from Cons.prems have "ends r (rev pre @ (c # p), suf) \<noteq> []" by simp
  from Cons.IH[OF this] show ?case by (auto split: list.splits)
qed

lemma search_elim:
  "search r p s \<noteq> None \<Longrightarrow> \<exists>pre suf. s = pre @ suf \<and> ends r (rev pre @ p, suf) \<noteq> []"
proof (induction s arbitrary: p)
  case Nil
  then show ?case by (auto split: list.splits)
next
  case (Cons c s)
  show ?case
  proof (cases "ends r (p, c # s)")
    case Nil
    with Cons.prems have "search r (c # p) s \<noteq> None" by simp
    from Cons.IH[OF this] obtain pre suf where "s = pre @ suf" "ends r (rev pre @ c # p, suf) \<noteq> []"
      by blast
    then have "c # s = (c # pre) @ suf \<and> ends r (rev (c # pre) @ p, suf) \<noteq> []" by simp
    then show ?thesis by blast
  next
    case (Cons e es)
    then have "c # s = [] @ (c # s) \<and> ends r (rev [] @ p, c # s) \<noteq> []" by simp
    then show ?thesis by blast
  qed
qed

lemma js_test_intro: "ends r (rev pre, suf) \<noteq> [] \<Longrightarrow> js_test r (pre @ suf)"
  using search_intro[of r pre "[]" suf] by (simp add: js_test_def)

lemma js_match_intro: "ends r (rev pre, suf) \<noteq> [] \<Longrightarrow> js_match r (pre @ suf) \<noteq> None"
  using search_intro[of r pre "[]" suf] by (simp add: js_match_def)

lemma js_match_elim:
  "js_match r s \<noteq> None \<Longrightarrow> \<exists>pre suf. s = pre @ suf \<and> ends r (rev pre, suf) \<noteq> []"
  using search_elim[of r "[]" s] by (simp add: js_match_def)

lemma ends_alts: "ends (alts ws) (p, s) \<noteq> [] \<Longrightarrow> \<exists>w \<in> set ws. take (length w) s = w"
  by (induction ws rule: alts.induct) (auto split: if_splits list.splits)

lemma js_includes_intro: "take (length w) suf = w \<Longrightarrow> js_includes (pre @ suf) w"
proof (induction pre)
  case Nil
  then show ?case by (cases suf) auto
next
  case (Cons c pre)
  then show ?case by simp
qed

lemma js_includes_iff: "js_includes s w \<longleftrightarrow> (\<exists>pre post. s = pre @ w @ post)"
proof
  assume "js_includes s w"
  then show "\<exists>pre post. s = pre @ w @ post"
  proof (induction s)
    case Nil
    then show ?case by simp
  next
    case (Cons c s)
    show ?case
    proof (cases "take (length w) (c # s) = w")
      case True
      then have "c # s = [] @ w @ drop (length w) (c # s)"
        by (metis append_Nil append_take_drop_id)
      then show ?thesis by blast
    next
      case False
      with Cons.prems have "js_includes s w" by simp
      from Cons.IH[OF this] obtain pre post where "s = pre @ w @ post" by blast
      then have "c # s = (c # pre) @ w @ post" by simp
      then show ?thesis by blast
    qed
  qed
next
  assume "\<exists>pre post. s = pre @ w @ post"
  then obtain pre post where "s = pre @ w @ post" by blast
  then show "js_includes s w"
    using js_includes_intro[of w "w @ post" pre] by simp
qed

lemma ends_SeqI: "m \<in> set (ends a st) \<Longrightarrow> e \<in> set (ends b m) \<Longrightarrow> e \<in> set (ends (Seq a b) st)"
  by auto

lemma ends_StarI_stop: "st \<in> set (ends (Star a) st)"
  using ends_Star_mem[of st a st] by blast

lemma ends_StarI_step:
  "m \<in> set (ends a st) \<Longrightarrow> length (snd m) < length (snd st) \<Longrightarrow> e \<in> set (ends (Star a) m)
     \<Longrightarrow> e \<in> set (ends (Star a) st)"
  using ends_Star_mem[of e a st] by blast

lemma ends_Star_Cls:
  "\<forall>c \<in> set body. P c \<Longrightarrow> (rev body @ p, rest) \<in> set (ends (Star (Cls P)) (p, body @ rest))"
proof (induction body arbitrary: p)
  case Nil
  have "(p, rest) \<in> set (ends (Star (Cls P)) (p, rest))" by (rule ends_StarI_stop)
  then show ?case by (simp del: ends.simps)
next
  case (Cons c body)
  from Cons.prems have c: "P c" and b: "\<forall>c \<in> set body. P c" by simp_all
  have m: "(c # p, body @ rest) \<in> set (ends (Cls P) (p, c # body @ rest))"
    using c by simp
  have l: "length (snd (c # p, body @ rest)) < length (snd (p, c # body @ rest))" by simp
  have "(rev body @ c # p, rest) \<in> set (ends (Star (Cls P)) (c # p, body @ rest))"
    by (rule Cons.IH[OF b])
  from ends_StarI_step[OF m l this] show ?case by (simp del: ends.simps)
qed

lemma ends_Star_dots:
  "(replicate j (CHR ''.'') @ p, rest) \<in> set (ends (Star (Lit ''.'')) (p, replicate j (CHR ''.'') @ rest))"
proof (induction j arbitrary: p)
  case 0
  have "(p, rest) \<in> set (ends (Star (Lit ''.'')) (p, rest))" by (rule ends_StarI_stop)
  then show ?case by (simp del: ends.simps)
next
  case (Suc j)
  have m: "(CHR ''.'' # p, replicate j (CHR ''.'') @ rest)
             \<in> set (ends (Lit ''.'') (p, CHR ''.'' # replicate j (CHR ''.'') @ rest))"
    by simp
  have l: "length (snd (CHR ''.'' # p, replicate j (CHR ''.'') @ rest))
             < length (snd (p, CHR ''.'' # replicate j (CHR ''.'') @ rest))" by simp
  have "(replicate j (CHR ''.'') @ CHR ''.'' # p, rest)
          \<in> set (ends (Star (Lit ''.'')) (CHR ''.'' # p, replicate j (CHR ''.'') @ rest))"
    by (rule Suc.IH)
  from ends_StarI_step[OF m l this] show ?case
    by (simp add: replicate_app_Cons_same del: ends.simps)
qed

lemma ends_LitI: "(rev w @ p, s) \<in> set (ends (Lit w) (p, w @ s))"
  by simp

lemma ends_ClsI: "P c \<Longrightarrow> (c # p, s) \<in> set (ends (Cls P) (p, c # s))"
  by simp

lemma ends_OptI: "e \<in> set (ends a st) \<Longrightarrow> e \<in> set (ends (Opt a) st)"
  by simp

lemma ends_NotBehindI: "take (length w) p \<noteq> rev w \<Longrightarrow> (p, s) \<in> set (ends (NotBehind w) (p, s))"
  by simp

lemma not_behind:
  assumes "CHR ''/'' \<notin> set w" "\<not> suffix w body"
  shows "take (length w) (rev body @ CHR ''/'' # p) \<noteq> rev w"
proof
  assume eq: "take (length w) (rev body @ CHR ''/'' # p) = rev w"
  show False
  proof (cases "length w \<le> length body")
    case True
    with eq have "take (length w) (rev body) = rev w" by simp
    then have "rev (take (length w) (rev body)) = w" by simp
    then have "drop (length body - length w) body = w" by (simp add: rev_take)
    then have "suffix w body" by (metis suffix_drop)
    with assms(2) show False by simp
  next
    case False
    then have "take (length w) (rev body @ CHR ''/'' # p)
               = rev body @ CHR ''/'' # take (length w - Suc (length body)) p"
      by (simp add: take_Cons')
    with eq have "CHR ''/'' \<in> set (rev w)" by (metis in_set_conv_decomp)
    with assms(1) show False by simp
  qed
qed

subsection \<open>Facts about the detectors\<close>

lemma hasFetch_includes:
  "hasFetch content \<Longrightarrow>
     js_includes content ''fetch('' \<or> js_includes content ''request('' \<or>
     js_includes content ''axios.'' \<or> js_includes content ''supertest''"
proof -
  assume "hasFetch content"
  then obtain pre suf where c: "content = pre @ suf" and e: "ends re_fetch (rev pre, suf) \<noteq> []"
    using js_match_elim[of re_fetch content] by (auto simp: hasFetch_def)
  from ends_alts[OF e[unfolded re_fetch_def]]
  obtain w where w: "w \<in> set [''fetch('', ''request('', ''axios.'', ''supertest'']"
    and t: "take (length w) suf = w" by blast
  from js_includes_intro[OF t, of pre] c have "js_includes content w" by simp
  with w show ?thesis by auto
qed

lemma hasRender_includes: "hasRender content \<Longrightarrow> js_includes content ''render(''"
proof -
  assume "hasRender content"
  then obtain pre suf where c: "content = pre @ suf" and e: "ends re_render (rev pre, suf) \<noteq> []"
    using js_match_elim[of re_render content] by (auto simp: hasRender_def)
  from e have "take (length ''render('') suf = ''render(''"
    by (auto simp: re_render_def split: if_splits)
  from js_includes_intro[OF this, of pre] c show ?thesis by simp
qed

lemma reason4_mem:
  "reason4 \<in> set (collectReasons filePath content) \<longleftrightarrow>
     hasTestingLibImports content \<and> \<not> hasSourceImports content \<and> \<not> isIntegrationTest filePath"
  by (auto simp: collectReasons_def detector1_def detector2_def detector3_def detector4_def
      detector5_def detector6_def detector7_def reason1_def reason2_def reason3_def reason4_def
      reason5_def reason6_def reason7_def split: option.splits if_splits)

lemma reason7_mem:
  "reason7 \<in> set (collectReasons filePath content) \<longleftrightarrow>
     isIntegrationTest filePath \<and> \<not> hasFetch content \<and> \<not> hasRender content"
  by (auto simp: collectReasons_def detector1_def detector2_def detector3_def detector4_def
      detector5_def detector6_def detector7_def reason1_def reason2_def reason3_def reason4_def
      reason5_def reason6_def reason7_def split: option.splits if_splits)

lemma ends_integration:
  assumes "isSep sep" "nm = ''integration'' \<or> nm = ''e2e''"
    "ext = ''ts'' \<or> ext = ''tsx'' \<or> ext = ''js'' \<or> ext = ''jsx'' \<or> ext = ''mjs'' \<or> ext = ''cjs''"
  shows "ends re_integration (p, sep # nm @ ''.test.'' @ ext) \<noteq> []"
  using assms(2,3) apply (elim disjE)
  using assms(1) apply (simp_all add: re_integration_def sourceExts_def)
  done

lemma isIntegrationTest_intro:
  assumes "isSep sep" "nm = ''integration'' \<or> nm = ''e2e''"
    "ext = ''ts'' \<or> ext = ''tsx'' \<or> ext = ''js'' \<or> ext = ''jsx'' \<or> ext = ''mjs'' \<or> ext = ''cjs''"
  shows "isIntegrationTest (d @ sep # nm @ ''.test.'' @ ext)"
  using js_test_intro[OF ends_integration[OF assms, of "rev d"]]
  by (simp add: isIntegrationTest_def)

lemma hasSourceImports_intro:
  assumes "isQuote q1" "isQuote q2" "\<forall>c \<in> set body. \<not> isQuote c"
    "\<not> suffix ''.test'' body" "\<not> suffix ''.spec'' body"
  shows "hasSourceImports
           (pre @ ''from '' @ q1 # ''.'' @ ''.'' @ replicate j (CHR ''.'') @ ''/'' @ body @ q2 # post)"
proof -
  define p1 where "p1 = rev ''from '' @ rev pre"
  define p4 where "p4 = replicate j (CHR ''.'') @ rev ''.'' @ rev ''.'' @ q1 # p1"
  define p5 where "p5 = rev body @ rev ''/'' @ p4"
  define s5 where "s5 = q2 # post"
  define s4 where "s4 = ''/'' @ body @ s5"
  have g: "(q2 # p5, post) \<in> set (ends (Cls isQuote) (p5, s5))"
    unfolding s5_def by (rule ends_ClsI[where P=isQuote, OF assms(2)])
  have nb1: "take (length ''.test'') p5 \<noteq> rev ''.test''"
    using not_behind[OF _ assms(4), of p4] by (simp add: p5_def)
  have nb2: "take (length ''.spec'') p5 \<noteq> rev ''.spec''"
    using not_behind[OF _ assms(5), of p4] by (simp add: p5_def)
  have h7: "(q2 # p5, post) \<in> set (ends (Seq (NotBehind ''.spec'') (Cls isQuote)) (p5, s5))"
    by (rule ends_SeqI[OF ends_NotBehindI[OF nb2] g])
  have h6: "(q2 # p5, post) \<in> set (ends (Seq (NotBehind ''.test'')
              (Seq (NotBehind ''.spec'') (Cls isQuote))) (p5, s5))"
    by (rule ends_SeqI[OF ends_NotBehindI[OF nb1] h7])
  have nq: "\<forall>c \<in> set body. notQuote c"
    using assms(3) by (simp add: notQuote_def)
  have d: "(p5, s5) \<in> set (ends (Opt (Seq (Lit ''/'') (Star (Cls notQuote)))) (p4, s4))"
    unfolding p5_def s4_def
    by (rule ends_OptI[OF ends_SeqI[OF ends_LitI ends_Star_Cls[OF nq]]])
  have h5: "(q2 # p5, post) \<in> set (ends (Seq (Opt (Seq (Lit ''/'') (Star (Cls notQuote))))
              (Seq (NotBehind ''.test'') (Seq (NotBehind ''.spec'') (Cls isQuote)))) (p4, s4))"
    by (rule ends_SeqI[OF d h6])
  have c: "(p4, s4) \<in> set (ends (Plus (Lit ''.''))
              (rev ''.'' @ q1 # p1, ''.'' @ replicate j (CHR ''.'') @ s4))"
    unfolding Plus_def p4_def by (rule ends_SeqI[OF ends_LitI ends_Star_dots])
  have h4: "(q2 # p5, post) \<in> set (ends (Seq (Plus (Lit ''.'')) (Seq (Opt (Seq (Lit ''/'') (Star (Cls notQuote))))
              (Seq (NotBehind ''.test'') (Seq (NotBehind ''.spec'') (Cls isQuote)))))
              (rev ''.'' @ q1 # p1, ''.'' @ replicate j (CHR ''.'') @ s4))"
    by (rule ends_SeqI[OF c h5])
  have h3: "(q2 # p5, post) \<in> set (ends (Seq (Lit ''.'') (Seq (Plus (Lit ''.''))
              (Seq (Opt (Seq (Lit ''/'') (Star (Cls notQuote))))
              (Seq (NotBehind ''.test'') (Seq (NotBehind ''.spec'') (Cls isQuote))))))
              (q1 # p1, ''.'' @ ''.'' @ replicate j (CHR ''.'') @ s4))"
    by (rule ends_SeqI[OF ends_LitI h4])
  have h2: "(q2 # p5, post) \<in> set (ends (Seq (Cls isQuote) (Seq (Lit ''.'') (Seq (Plus (Lit ''.''))
              (Seq (Opt (Seq (Lit ''/'') (Star (Cls notQuote))))
              (Seq (NotBehind ''.test'') (Seq (NotBehind ''.spec'') (Cls isQuote)))))))
              (p1, q1 # ''.'' @ ''.'' @ replicate j (CHR ''.'') @ s4))"
    by (rule ends_SeqI[OF ends_ClsI[where P=isQuote, OF assms(1)] h3])
  have h1: "(q2 # p5, post) \<in> set (ends (Seq (Lit ''from '') (Seq (Cls isQuote) (Seq (Lit ''.'')
              (Seq (Plus (Lit ''.''))
              (Seq (Opt (Seq (Lit ''/'') (Star (Cls notQuote))))
              (Seq (NotBehind ''.test'') (Seq (NotBehind ''.spec'') (Cls isQuote))))))))
              (rev pre, ''from '' @ q1 # ''.'' @ ''.'' @ replicate j (CHR ''.'') @ s4))"
    unfolding p1_def by (rule ends_SeqI[OF ends_LitI h2[unfolded p1_def]])
  have re: "re_sourceImports = Seq (Lit ''from '') (Seq (Cls isQuote) (Seq (Lit ''.'')
              (Seq (Plus (Lit ''.''))
              (Seq (Opt (Seq (Lit ''/'') (Star (Cls notQuote))))
              (Seq (NotBehind ''.test'') (Seq (NotBehind ''.spec'') (Cls isQuote)))))))"
    by (simp add: re_sourceImports_def)
  from h1 have "ends re_sourceImports
      (rev pre, ''from '' @ q1 # ''.'' @ ''.'' @ replicate j (CHR ''.'') @ s4) \<noteq> []"
    unfolding re by (rule_tac notI) (simp del: ends.simps)
  from js_match_intro[OF this] show ?thesis
    by (simp add: hasSourceImports_def s4_def s5_def)
qed

subsection \<open>Facts about the traversal and the scan\<close>

lemma mapAnalyze_Inr:
  "mapAnalyze fs ps = Inr rs \<Longrightarrow> Some r \<in> set rs \<Longrightarrow>
     \<exists>p \<in> set ps. analyzeTestFile fs p = Inr (Some r)"
proof (induction ps arbitrary: rs)
  case Nil
  then show ?case by simp
next
  case (Cons p ps)
  from Cons.prems(1) obtain x xs where x: "analyzeTestFile fs p = Inr x"
    and xs: "mapAnalyze fs ps = Inr xs" and rs: "rs = x # xs"
    by (auto split: sum.splits)
  from Cons.prems(2) rs have "Some r = x \<or> Some r \<in> set xs" by auto
  then show ?case
  proof
    assume "Some r = x"
    with x show ?thesis by simp
  next
    assume "Some r \<in> set xs"
    from Cons.IH[OF xs this] show ?thesis by auto
  qed
qed

lemma mapAnalyze_Inl:
  "mapAnalyze fs ps = Inl e \<Longrightarrow> \<exists>p \<in> set ps. readFileSync fs p = Inl e"
proof (induction ps)
  case Nil
  then show ?case by simp
next
  case (Cons p ps)
  show ?case
  proof (cases "analyzeTestFile fs p")
    case (Inl e')
    with Cons.prems have "e' = e" by simp
    with Inl have "readFileSync fs p = Inl e"
      by (auto simp: analyzeTestFile_def split: sum.splits)
    then show ?thesis by simp
  next
    case (Inr x)
    with Cons.prems have "mapAnalyze fs ps = Inl e" by (auto split: sum.splits)
    from Cons.IH[OF this] show ?thesis by auto
  qed
qed

lemma mapAnalyze_fails:
  "p \<in> set ps \<Longrightarrow> readFileSync fs p = Inl e \<Longrightarrow> \<exists>e'. mapAnalyze fs ps = Inl e'"
proof (induction ps)
  case Nil
  then show ?case by simp
next
  case (Cons q ps)
  show ?case
  proof (cases "analyzeTestFile fs q")
    case (Inl e')
    then show ?thesis by simp
  next
    case (Inr x)
    with Cons.prems have "p \<noteq> q" by (auto simp: analyzeTestFile_def)
    with Cons.prems have "p \<in> set ps" by simp
    from Cons.IH[OF this Cons.prems(2)] Inr show ?thesis by auto
  qed
qed

lemma notNull_set: "r \<in> set (notNull rs) \<longleftrightarrow> Some r \<in> set rs"
  by (induction rs rule: notNull.induct) auto

lemma insertBy_set: "set (insertBy cmp x ys) = insert x (set ys)"
  by (induction ys) auto

lemma js_sort_set: "set (js_sort cmp xs) = set xs"
  by (induction xs) (simp_all add: js_sort_def insertBy_set)

lemma compareTests_le:
  "compareTests a b \<le> 0 \<longleftrightarrow>
     levelOf (confidence b) < levelOf (confidence a) \<or>
     (levelOf (confidence b) = levelOf (confidence a) \<and> lineCount b \<le> lineCount a)"
  by (auto simp: compareTests_def Let_def)

lemma before_total: "\<not> before a b \<Longrightarrow> before b a"
  unfolding before_def compareTests_le by linarith

lemma before_trans: "before a b \<Longrightarrow> before b c \<Longrightarrow> before a c"
  unfolding before_def compareTests_le by linarith

lemma insertBy_sorted:
  "sorted_wrt before ys \<Longrightarrow> sorted_wrt before (insertBy compareTests x ys)"
proof (induction ys)
  case Nil
  then show ?case by simp
next
  case (Cons y ys)
  show ?case
  proof (cases "compareTests x y \<le> 0")
    case True
    then have xy: "before x y" by (simp add: before_def)
    with Cons.prems have "\<forall>z \<in> set ys. before x z"
      using before_trans by auto
    with xy Cons.prems True show ?thesis by simp
  next
    case False
    then have "before y x" using before_total by (simp add: before_def)
    with Cons False show ?thesis by (simp add: insertBy_set)
  qed
qed

lemma js_sort_sorted: "sorted_wrt before (js_sort compareTests xs)"
  by (induction xs) (simp_all add: js_sort_def insertBy_sorted)

lemma allTestFiles_minConfidence:
  "allTestFiles fs (options\<lparr>minConfidence := mc\<rparr>) = allTestFiles fs options"
  by (simp add: allTestFiles_def)

lemma filterByConfidence_level:
  "r \<in> set (filterByConfidence mc xs) \<longleftrightarrow>
     r \<in> set xs \<and> (\<exists>n. confidenceLevels mc = Some n \<and> n \<le> levelOf (confidence r))"
  by (cases "confidence r"; cases "confidenceLevels mc")
     (auto simp: filterByConfidence_def levelOf_def confidenceLevels_def)

lemma filterByConfidence_mono:
  assumes "\<And>n. confidenceLevels b = Some n \<Longrightarrow> \<exists>m. confidenceLevels a = Some m \<and> m \<le> n"
  shows "set (filterByConfidence b xs) \<subseteq> set (filterByConfidence a xs)"
proof
  fix r
  assume "r \<in> set (filterByConfidence b xs)"
  then obtain n where r: "r \<in> set xs" and n: "confidenceLevels b = Some n"
    and le: "n \<le> levelOf (confidence r)"
    by (auto simp: filterByConfidence_level)
  from assms[OF n] obtain m where "confidenceLevels a = Some m" "m \<le> n" by blast
  with r le show "r \<in> set (filterByConfidence a xs)"
    by (auto simp: filterByConfidence_level)
qed

lemma detect_cases:
  "detectUselessTests fs (options\<lparr>minConfidence := Some mc\<rparr>) =
     (case mapAnalyze fs (allTestFiles fs options) of
        Inl e \<Rightarrow> Inl e
      | Inr results \<Rightarrow> Inr (js_sort compareTests (filterByConfidence mc (notNull results))))"
  by (simp add: detectUselessTests_def allTestFiles_minConfidence)

lemma detect_Inr:
  assumes "detectUselessTests fs options = Inr out" "r \<in> set out"
  shows "\<exists>p \<in> set (allTestFiles fs options). analyzeTestFile fs p = Inr (Some r)"
proof -
  from assms(1) obtain results where m: "mapAnalyze fs (allTestFiles fs options) = Inr results"
    and out: "out = js_sort compareTests (filterByConfidence
        (case minConfidence options of None \<Rightarrow> ''low'' | Some c \<Rightarrow> c) (notNull results))"
    by (auto simp: detectUselessTests_def Let_def split: sum.splits)
  from assms(2) out have "Some r \<in> set results"
    by (simp add: js_sort_set filterByConfidence_level notNull_set)
  from mapAnalyze_Inr[OF m this] show ?thesis .
qed

lemma reaches_here:
  "list_ex (\<lambda>pattern. js_test pattern item) patterns \<Longrightarrow>
     reaches (Dir ((item, n) # rest)) dir patterns (join dir item)"
  unfolding reaches_def
  by (rule exI[of _ "[item]"]) simp

lemma reaches_below:
  assumes "reaches n (join dir item) patterns p" "\<not> excluded item"
  shows "reaches (Dir ((item, n) # rest)) dir patterns p"
proof -
  from assms(1) obtain items where i: "items \<noteq> []" "p = foldl join (join dir item) items"
    "hasEntry n items" "\<forall>d \<in> set (butlast items). \<not> excluded d"
    "list_ex (\<lambda>pattern. js_test pattern (last items)) patterns"
    unfolding reaches_def by blast
  show ?thesis
    unfolding reaches_def
    using i assms(2) by (intro exI[of _ "item # items"]) simp
qed

lemma reaches_later:
  assumes "reaches (Dir rest) dir patterns p"
  shows "reaches (Dir (e # rest)) dir patterns p"
proof -
  from assms obtain items where i: "items \<noteq> []" "p = foldl join dir items"
    "hasEntry (Dir rest) items" "\<forall>d \<in> set (butlast items). \<not> excluded d"
    "list_ex (\<lambda>pattern. js_test pattern (last items)) patterns"
    unfolding reaches_def by blast
  from i(1,3) have "hasEntry (Dir (e # rest)) items"
    by (cases items) simp_all
  with i show ?thesis unfolding reaches_def by blast
qed

lemma found_reaches:
  "p \<in> set (findTestFilesAt n dir patterns) \<Longrightarrow> reaches n dir patterns p"
  "p \<in> set (scanItems items dir' patterns' files) \<Longrightarrow>
      p \<in> set files \<or> reaches (Dir items) dir' patterns' p"
proof (induction n dir patterns and items dir' patterns' files
    rule: findTestFilesAt_scanItems.induct)
  case (1 items dir patterns)
  then show ?case by simp
next
  case (2 dir patterns)
  then show ?case by simp
next
  case (3 dir patterns)
  then show ?case by simp
next
  case (4 dir patterns)
  then show ?case by simp
next
  case (5 dir patterns files)
  then show ?case by simp
next
  case (6 item n rest dir patterns files)
  note p = "6.prems"
  show ?case
  proof (cases "n = Broken")
    case True
    with p show ?thesis by simp
  next
    case nb: False
    show ?thesis
    proof (cases "isDirectory n \<and> \<not> js_includes item ''node_modules'' \<and> \<not> js_includes item ''dist''")
      case True
      with nb p have "p \<in> set (scanItems rest dir patterns
          (files @ findTestFilesAt n (join dir item) patterns))"
        by (simp add: Let_def)
      from "6.IH"(2)[OF refl nb True this]
      have "p \<in> set files \<or> p \<in> set (findTestFilesAt n (join dir item) patterns)
              \<or> reaches (Dir rest) dir patterns p"
        by auto
      moreover from True have "\<not> excluded item" by (simp add: excluded_def)
      ultimately show ?thesis
        using "6.IH"(1)[OF refl nb True] reaches_below reaches_later by blast
    next
      case nd: False
      show ?thesis
      proof (cases "list_ex (\<lambda>pattern. js_test pattern item) patterns")
        case True
        with nb nd p have "p \<in> set (scanItems rest dir patterns (files @ [join dir item]))"
          by (auto simp: Let_def split: if_splits)
        from "6.IH"(3)[OF refl nb nd True this]
        have "p \<in> set files \<or> p = join dir item \<or> reaches (Dir rest) dir patterns p"
          by auto
        then show ?thesis
          using reaches_here[OF True] reaches_later by blast
      next
        case False
        with nb nd p have "p \<in> set (scanItems rest dir patterns files)"
          by (auto simp: Let_def split: if_splits)
        from "6.IH"(4)[OF refl nb nd False this] show ?thesis
          using reaches_later by blast
      qed
    qed
  qed
qed

subsection \<open>The verdict\<close>

text \<open>
  C1. For a file that is read, the verdict depends on the number of reasons only:
  with no reason the file has no record; with at least one reason the record carries
  the collected reasons and the confidence is high for three or more reasons, medium
  for exactly two and low for exactly one.
\<close>

theorem confidence_by_count:
  assumes "readFileSync fs filePath = Inr content"
  shows "(length (collectReasons filePath content) = 0 \<longrightarrow> analyzeTestFile fs filePath = Inr None) \<and>
         (length (collectReasons filePath content) \<ge> 1 \<longrightarrow>
            (\<exists>r. analyzeTestFile fs filePath = Inr (Some r) \<and>
                 reasons r = collectReasons filePath content \<and>
                 confidence r =
                   (if length (collectReasons filePath content) \<ge> 3 then High
                    else if length (collectReasons filePath content) = 2 then Medium
                    else Low)))"
  using assms by (auto simp: analyzeTestFile_def analyzeContent_def confidenceOf_def Let_def)

theorem confidence_by_count_witness:
  "length (collectReasons ''src/c.test.ts''
      (''import type X'' @ [CHR 0x0A] @ ''class FooParser'' @ [CHR 0x0A] @ ''// would be actual'')) = 3 \<and>
   (\<exists>r. analyzeTestFile fs_four ''src/c.test.ts'' = Inr (Some r) \<and>
        reasons r = [reason1 1, reason2, reason5] \<and> confidence r = High)"
proof -
  let ?c = "''import type X'' @ [CHR 0x0A] @ ''class FooParser'' @ [CHR 0x0A] @ ''// would be actual''"
  have rd: "readFileSync fs_four ''src/c.test.ts'' = Inr ?c"
    by (simp add: fs_four_def)
  have rs: "collectReasons ''src/c.test.ts'' ?c = [reason1 1, reason2, reason5]"
    by code_simp
  from confidence_by_count[OF rd] rs show ?thesis by simp
qed

subsection \<open>Errors while reading\<close>

text \<open>
  C2, amended. Nothing catches an error that \<open>readFileSync\<close> raises (see the
  counterexample below, where the second file would have been reported). If reading
  one of the enumerated files raises, the scan as a whole ends with the error of a
  file whose read raised, and returns no records.
\<close>

theorem read_error_aborts_scan:
  assumes "p \<in> set (allTestFiles fs options)" "readFileSync fs p = Inl e"
  shows "\<exists>p' e'. p' \<in> set (allTestFiles fs options) \<and> readFileSync fs p' = Inl e' \<and>
           detectUselessTests fs options = Inl e'"
proof -
  from mapAnalyze_fails[OF assms] obtain e' where e': "mapAnalyze fs (allTestFiles fs options) = Inl e'"
    by blast
  from mapAnalyze_Inl[OF e'] obtain p' where "p' \<in> set (allTestFiles fs options)"
    "readFileSync fs p' = Inl e'" by blast
  moreover from e' have "detectUselessTests fs options = Inl e'"
    by (simp add: detectUselessTests_def)
  ultimately show ?thesis by blast
qed

theorem read_error_aborts_scan_witness:
  "''src/a.test.ts'' \<in> set (allTestFiles fs_vanished (opts None)) \<and>
   readFileSync fs_vanished ''src/a.test.ts'' = Inl ENOENT \<and>
   (\<exists>p' e'. p' \<in> set (allTestFiles fs_vanished (opts None)) \<and>
      readFileSync fs_vanished p' = Inl e' \<and>
      detectUselessTests fs_vanished (opts None) = Inl e')"
proof -
  have f: "''src/a.test.ts'' \<in> set (allTestFiles fs_vanished (opts None))" by code_simp
  have r: "readFileSync fs_vanished ''src/a.test.ts'' = Inl ENOENT"
    by (simp add: fs_vanished_def)
  from read_error_aborts_scan[OF f r] f r show ?thesis by simp
qed

theorem read_error_counterexample:
  "allTestFiles fs_vanished (opts None) = [''src/a.test.ts'', ''src/b.test.ts''] \<and>
   readFileSync fs_vanished ''src/a.test.ts'' = Inl ENOENT \<and>
   analyzeTestFile fs_vanished ''src/b.test.ts''
     = Inr (Some \<lparr> file_path = ''src/b.test.ts'', reasons = [reason5], confidence = Low,
                    lineCount = 1 \<rparr>) \<and>
   detectUselessTests fs_vanished (opts None) = Inl ENOENT"
  by code_simp

subsection \<open>Detector 7: integration tests that cross no boundary\<close>

text \<open>
  C3, amended. The path \<open>checkout.integration.test.ts\<close> is not recognised as an
  integration test: the pattern asks for a path separator right before
  \<open>integration\<close> or \<open>e2e\<close> (see the counterexample below). For a file whose path
  ends in a separator, \<open>integration\<close> or \<open>e2e\<close>, \<open>.test.\<close> and one of the six
  extensions, and whose text contains none of \<open>fetch(\<close>, \<open>request(\<close>, \<open>axios.\<close>,
  \<open>supertest\<close> and \<open>render(\<close>, detector 7 fires: the file has a record with the
  reason of detector 7, and when no other detector fires that is its only reason and
  the confidence is low.
\<close>

theorem fake_integration_fires:
  assumes "readFileSync fs filePath = Inr content"
    and "filePath = d @ sep # nm @ ''.test.'' @ ext"
    and "isSep sep"
    and "nm = ''integration'' \<or> nm = ''e2e''"
    and "ext = ''ts'' \<or> ext = ''tsx'' \<or> ext = ''js'' \<or> ext = ''jsx'' \<or> ext = ''mjs'' \<or> ext = ''cjs''"
    and "\<not> js_includes content ''fetch(''" "\<not> js_includes content ''request(''"
      "\<not> js_includes content ''axios.''" "\<not> js_includes content ''supertest''"
      "\<not> js_includes content ''render(''"
  shows "\<exists>r. analyzeTestFile fs filePath = Inr (Some r) \<and> reason7 \<in> set (reasons r) \<and>
           (detector1 content = [] \<and> detector2 content = [] \<and> detector3 content = [] \<and>
            detector4 filePath content = [] \<and> detector5 content = [] \<and> detector6 content = []
              \<longrightarrow> reasons r = [reason7] \<and> confidence r = Low)"
proof -
  have i: "isIntegrationTest filePath"
    unfolding assms(2) by (rule isIntegrationTest_intro[OF assms(3,4,5)])
  have f: "\<not> hasFetch content"
    using hasFetch_includes[of content] assms(6-9) by blast
  have r: "\<not> hasRender content"
    using hasRender_includes[of content] assms(10) by blast
  from i f r have d7: "detector7 filePath content = [reason7]"
    by (simp add: detector7_def)
  then have ne: "collectReasons filePath content \<noteq> []"
    by (simp add: collectReasons_def)
  have a: "analyzeTestFile fs filePath =
        Inr (Some \<lparr> file_path = filePath, reasons = collectReasons filePath content,
                     confidence = confidenceOf (length (collectReasons filePath content)),
                     lineCount = length (split_lines content) \<rparr>)"
    using assms(1) ne by (simp add: analyzeTestFile_def analyzeContent_def Let_def)
  show ?thesis
    unfolding a using d7 by (simp add: collectReasons_def confidenceOf_def)
qed

theorem fake_integration_fires_witness:
  "\<exists>r. analyzeTestFile fs_plain (''tests'' @ [CHR 0x5C] @ ''e2e.test.js'') = Inr (Some r) \<and>
       reasons r = [reason7] \<and> confidence r = Low"
proof -
  let ?c = "''expect(add(1, 2)).toBe(3);''"
  let ?p = "''tests'' @ [CHR 0x5C] @ ''e2e.test.js''"
  have rd: "readFileSync fs_plain ?p = Inr ?c" by (simp add: fs_plain_def)
  have p: "?p = ''tests'' @ CHR 0x5C # ''e2e'' @ ''.test.'' @ ''js''" by simp
  have s: "isSep (CHR 0x5C)" by (simp add: isSep_def)
  have n: "\<not> js_includes ?c ''fetch(''" "\<not> js_includes ?c ''request(''"
      "\<not> js_includes ?c ''axios.''" "\<not> js_includes ?c ''supertest''"
      "\<not> js_includes ?c ''render(''"
    by code_simp+
  have d: "detector1 ?c = []" "detector2 ?c = []" "detector3 ?c = []"
      "detector4 ?p ?c = []" "detector5 ?c = []" "detector6 ?c = []"
    by code_simp+
  from fake_integration_fires[OF rd p s _ _ n] d show ?thesis by auto
qed

theorem fake_integration_counterexample:
  "\<not> js_includes ''expect(add(1, 2)).toBe(3);'' ''fetch('' \<and>
   \<not> js_includes ''expect(add(1, 2)).toBe(3);'' ''request('' \<and>
   \<not> js_includes ''expect(add(1, 2)).toBe(3);'' ''axios.'' \<and>
   \<not> js_includes ''expect(add(1, 2)).toBe(3);'' ''supertest'' \<and>
   \<not> js_includes ''expect(add(1, 2)).toBe(3);'' ''render('' \<and>
   readFileSync fs_plain ''checkout.integration.test.ts'' = Inr ''expect(add(1, 2)).toBe(3);'' \<and>
   analyzeTestFile fs_plain ''checkout.integration.test.ts'' = Inr None \<and>
   analyzeTestFile fs_plain ''src/checkout.integration.test.ts'' = Inr None \<and>
   detector7 ''checkout.integration.test.ts'' ''expect(add(1, 2)).toBe(3);'' = [] \<and>
   detector7 ''src/checkout.integration.test.ts'' ''expect(add(1, 2)).toBe(3);'' = []"
  by code_simp

subsection \<open>Detector 4: no import from the sources\<close>

text \<open>
  C4, amended. The pattern for an import from the sources asks for two or more dots
  after the opening quote, so an import from \<open>./Button\<close> does not count (see the
  counterexample below). Detector 4 never fires on a file whose text contains
  \<open>from\<close>, a space, a quote, two or more dots, a slash, a path without quotes that
  does not end in \<open>.test\<close> or \<open>.spec\<close>, and a quote, whatever else the file imports.
\<close>

theorem parent_import_blocks_detector4:
  assumes "content = pre @ ''from '' @ [q1] @ replicate k (CHR ''.'') @ ''/'' @ body @ [q2] @ post"
    and "isQuote q1" "isQuote q2" "2 \<le> k"
    and "\<forall>c \<in> set body. \<not> isQuote c"
    and "\<not> suffix ''.test'' body" "\<not> suffix ''.spec'' body"
  shows "detector4 filePath content = [] \<and> reason4 \<notin> set (collectReasons filePath content)"
proof -
  from assms(4) obtain j where k: "k = Suc (Suc j)"
    by (metis Suc_le_D numeral_2_eq_2 Suc_le_mono)
  have "hasSourceImports content"
    using hasSourceImports_intro[OF assms(2,3,5,6,7), of pre j post]
    by (simp add: assms(1) k)
  then show ?thesis
    by (simp add: detector4_def reason4_mem)
qed

theorem parent_import_blocks_detector4_witness:
  "hasTestingLibImports txt_parent \<and> \<not> isIntegrationTest ''src/__tests__/Button.test.tsx'' \<and>
   detector4 ''src/__tests__/Button.test.tsx'' txt_parent = [] \<and>
   reason4 \<notin> set (collectReasons ''src/__tests__/Button.test.tsx'' txt_parent)"
proof -
  have c: "txt_parent =
      (''import { render } from '' @ [CHR 0x27] @ ''@testing-library/react'' @ [CHR 0x27] @ '';'' @
       [CHR 0x0A] @ ''import { Button } '') @ ''from '' @ [CHR 0x27] @ replicate 2 (CHR ''.'') @ ''/'' @
       ''Button'' @ [CHR 0x27] @ '';''"
    by (simp add: txt_parent_def numeral_2_eq_2)
  have q: "isQuote (CHR 0x27)" by (simp add: isQuote_def)
  have b: "\<forall>c \<in> set ''Button''. \<not> isQuote c" by (simp add: isQuote_def)
  have s: "\<not> suffix ''.test'' ''Button''" "\<not> suffix ''.spec'' ''Button''"
    by (simp_all add: suffix_to_prefix)
  have t: "hasTestingLibImports txt_parent" "\<not> isIntegrationTest ''src/__tests__/Button.test.tsx''"
    by code_simp+
  from parent_import_blocks_detector4[OF c q q _ b s, of "''src/__tests__/Button.test.tsx''"] t
  show ?thesis by simp
qed

theorem sibling_import_counterexample:
  "js_includes txt_sibling (''from '' @ [CHR 0x27] @ ''./Button'' @ [CHR 0x27]) \<and>
   detector4 ''src/Button.test.tsx'' txt_sibling = [reason4] \<and>
   reason4 \<in> set (collectReasons ''src/Button.test.tsx'' txt_sibling)"
  by code_simp

subsection \<open>Files without reasons\<close>

text \<open>
  C5. A file that is read and on which no detector triggers is the file of no record
  in the output of the scan, whatever \<open>minConfidence\<close> is.
\<close>

theorem zero_reason_file_never_reported:
  assumes "readFileSync fs p = Inr content"
    and "collectReasons p content = []"
    and "detectUselessTests fs (options\<lparr>minConfidence := mc\<rparr>) = Inr out"
  shows "p \<notin> file_path ` set out"
proof
  assume "p \<in> file_path ` set out"
  then obtain r where r: "r \<in> set out" and p: "file_path r = p" by auto
  from detect_Inr[OF assms(3) r] obtain q where q: "analyzeTestFile fs q = Inr (Some r)"
    by blast
  then obtain c where c: "readFileSync fs q = Inr c" and a: "analyzeContent q c = Some r"
    by (auto simp: analyzeTestFile_def split: sum.splits)
  from a have "file_path r = q"
    by (auto simp: analyzeContent_def Let_def split: if_splits)
  with p c assms(1) have "q = p" "c = content" by simp_all
  with a assms(2) show False by (simp add: analyzeContent_def)
qed

theorem zero_reason_file_never_reported_witness:
  "''src/d.test.ts'' \<in> set (allTestFiles fs_four (opts None)) \<and>
   detectUselessTests fs_four (opts (Some ''low'')) = Inr [rec_c, rec_b, rec_a] \<and>
   ''src/d.test.ts'' \<notin> file_path ` set [rec_c, rec_b, rec_a]"
proof -
  have rd: "readFileSync fs_four ''src/d.test.ts'' = Inr ''expect(add(1, 2)).toBe(3);''"
    by (simp add: fs_four_def)
  have cr: "collectReasons ''src/d.test.ts'' ''expect(add(1, 2)).toBe(3);'' = []"
    by code_simp
  have d: "detectUselessTests fs_four (opts (Some ''low'')) = Inr [rec_c, rec_b, rec_a]"
    by code_simp
  then have d': "detectUselessTests fs_four ((opts None)\<lparr>minConfidence := Some ''low''\<rparr>)
      = Inr [rec_c, rec_b, rec_a]"
    by (simp add: opts_def)
  have f: "''src/d.test.ts'' \<in> set (allTestFiles fs_four (opts None))"
    by code_simp
  from zero_reason_file_never_reported[OF rd cr d'] d f show ?thesis by simp
qed

subsection \<open>The order of the output\<close>

text \<open>
  C6. In the output of the scan the confidence rank (high 3, medium 2, low 1) never
  increases from a record to a later one, and of two records of equal confidence the
  later one has no more lines.
\<close>

theorem output_is_sorted:
  assumes "detectUselessTests fs options = Inr out"
  shows "sorted_wrt (\<lambda>a b. levelOf (confidence a) \<ge> levelOf (confidence b) \<and>
                         (levelOf (confidence a) = levelOf (confidence b)
                            \<longrightarrow> lineCount a \<ge> lineCount b)) out \<and>
         levelOf High = 3 \<and> levelOf Medium = 2 \<and> levelOf Low = 1"
proof -
  from assms obtain xs where "out = js_sort compareTests xs"
    by (auto simp: detectUselessTests_def Let_def split: sum.splits)
  then have "sorted_wrt before out" by (simp add: js_sort_sorted)
  then have "sorted_wrt (\<lambda>a b. levelOf (confidence a) \<ge> levelOf (confidence b) \<and>
                         (levelOf (confidence a) = levelOf (confidence b)
                            \<longrightarrow> lineCount a \<ge> lineCount b)) out"
    by (rule sorted_wrt_mono_rel[rotated]) (auto simp: before_def compareTests_le)
  then show ?thesis by (simp add: levelOf_def confidenceLevels_def)
qed

theorem output_is_sorted_witness:
  "detectUselessTests fs_four (opts None) = Inr [rec_c, rec_b, rec_a] \<and>
   sorted_wrt (\<lambda>a b. levelOf (confidence a) \<ge> levelOf (confidence b) \<and>
                         (levelOf (confidence a) = levelOf (confidence b)
                            \<longrightarrow> lineCount a \<ge> lineCount b)) [rec_c, rec_b, rec_a]"
proof -
  have d: "detectUselessTests fs_four (opts None) = Inr [rec_c, rec_b, rec_a]"
    by code_simp
  from output_is_sorted[OF d] d show ?thesis by simp
qed

subsection \<open>Filtering by confidence\<close>

text \<open>
  C7. For the same file system and options, either the scans with \<open>minConfidence\<close>
  high, medium and low all end with the same error, or all three return, and then the
  records returned for high are among those for medium, which are among those for low.
\<close>

theorem filtering_is_monotonic:
  "(\<exists>e. detectUselessTests fs (options\<lparr>minConfidence := Some ''high''\<rparr>) = Inl e \<and>
        detectUselessTests fs (options\<lparr>minConfidence := Some ''medium''\<rparr>) = Inl e \<and>
        detectUselessTests fs (options\<lparr>minConfidence := Some ''low''\<rparr>) = Inl e) \<or>
   (\<exists>h m l. detectUselessTests fs (options\<lparr>minConfidence := Some ''high''\<rparr>) = Inr h \<and>
        detectUselessTests fs (options\<lparr>minConfidence := Some ''medium''\<rparr>) = Inr m \<and>
        detectUselessTests fs (options\<lparr>minConfidence := Some ''low''\<rparr>) = Inr l \<and>
        set h \<subseteq> set m \<and> set m \<subseteq> set l)"
proof (cases "mapAnalyze fs (allTestFiles fs options)")
  case (Inl e)
  then show ?thesis by (simp add: detect_cases)
next
  case (Inr results)
  have hm: "set (filterByConfidence ''high'' (notNull results))
              \<subseteq> set (filterByConfidence ''medium'' (notNull results))"
    by (rule filterByConfidence_mono) (simp add: confidenceLevels_def)
  have ml: "set (filterByConfidence ''medium'' (notNull results))
              \<subseteq> set (filterByConfidence ''low'' (notNull results))"
    by (rule filterByConfidence_mono) (simp add: confidenceLevels_def)
  from Inr hm ml show ?thesis
    by (simp add: detect_cases js_sort_set)
qed

theorem filtering_is_monotonic_witness:
  "detectUselessTests fs_four (opts (Some ''high'')) = Inr [rec_c] \<and>
   detectUselessTests fs_four (opts (Some ''medium'')) = Inr [rec_c] \<and>
   detectUselessTests fs_four (opts (Some ''low'')) = Inr [rec_c, rec_b, rec_a] \<and>
   set [rec_c] \<subseteq> set [rec_c, rec_b, rec_a]"
proof -
  have h: "detectUselessTests fs_four (opts (Some ''high'')) = Inr [rec_c]" by code_simp
  have m: "detectUselessTests fs_four (opts (Some ''medium'')) = Inr [rec_c]" by code_simp
  have l: "detectUselessTests fs_four (opts (Some ''low'')) = Inr [rec_c, rec_b, rec_a]"
    by code_simp
  have o: "(opts None)\<lparr>minConfidence := Some mc\<rparr> = opts (Some mc)" for mc
    by (simp add: opts_def)
  from filtering_is_monotonic[of fs_four "opts None"] h m l show ?thesis
    by (simp add: o)
qed

subsection \<open>An unknown confidence level\<close>

text \<open>
  C8. A \<open>minConfidence\<close> other than high, medium and low is not rejected: the filter
  then keeps no record, and the scan ends as the scan with \<open>low\<close> does, with an empty
  sequence where that one returns records.
\<close>

theorem unknown_level_excludes_everything:
  assumes "mc \<noteq> ''high''" "mc \<noteq> ''medium''" "mc \<noteq> ''low''"
  shows "filterByConfidence mc suspicious = [] \<and>
         detectUselessTests fs (options\<lparr>minConfidence := Some mc\<rparr>) =
           (case detectUselessTests fs (options\<lparr>minConfidence := Some ''low''\<rparr>) of
              Inl e \<Rightarrow> Inl e
            | Inr out \<Rightarrow> Inr [])"
proof -
  from assms have n: "confidenceLevels mc = None" by (simp add: confidenceLevels_def)
  then have f: "filterByConfidence mc xs = []" for xs
    by (simp add: filterByConfidence_def)
  show ?thesis
    by (simp add: f detect_cases js_sort_def split: sum.splits)
qed

theorem unknown_level_excludes_everything_witness:
  "detectUselessTests fs_four (opts (Some ''low'')) = Inr [rec_c, rec_b, rec_a] \<and>
   detectUselessTests fs_four (opts (Some ''urgent'')) = Inr []"
proof -
  have l: "detectUselessTests fs_four (opts (Some ''low'')) = Inr [rec_c, rec_b, rec_a]"
    by code_simp
  have o: "(opts None)\<lparr>minConfidence := Some mc\<rparr> = opts (Some mc)" for mc
    by (simp add: opts_def)
  from unknown_level_excludes_everything[of "''urgent''" "[]" fs_four "opts None"] l
  show ?thesis by (simp add: o)
qed

subsection \<open>Excluded directories\<close>

text \<open>
  C9, amended. The directory given to \<open>findTestFiles\<close> is entered whatever its name
  is (see the counterexample below); the exclusion applies to the directories met
  below it. Every reported path is the directory joined with a chain of entries of
  the tree, in which every entry but the last is a directory whose name contains
  neither \<open>node_modules\<close> nor \<open>dist\<close>, and the last matches a pattern.
\<close>

theorem reported_paths_avoid_excluded_directories:
  assumes "p \<in> set (findTestFiles fs dir patterns)"
  shows "\<exists>items. items \<noteq> [] \<and> p = foldl join dir items \<and> hasEntry (lookup fs dir) items \<and>
           (\<forall>d \<in> set (butlast items).
              \<not> js_includes d ''node_modules'' \<and> \<not> js_includes d ''dist'') \<and>
           list_ex (\<lambda>pattern. js_test pattern (last items)) patterns"
  using found_reaches(1)[of p "lookup fs dir" dir patterns] assms
  by (simp add: findTestFiles_def reaches_def excluded_def)

theorem reported_paths_avoid_excluded_directories_witness:
  "findTestFiles fs_tree ''src'' DEFAULT_TEST_PATTERNS = [''src/lib/y.test.ts''] \<and>
   (\<exists>items. items \<noteq> [] \<and> ''src/lib/y.test.ts'' = foldl join ''src'' items \<and>
      hasEntry (lookup fs_tree ''src'') items \<and>
      (\<forall>d \<in> set (butlast items).
         \<not> js_includes d ''node_modules'' \<and> \<not> js_includes d ''dist'') \<and>
      list_ex (\<lambda>pattern. js_test pattern (last items)) DEFAULT_TEST_PATTERNS)"
proof -
  have f: "findTestFiles fs_tree ''src'' DEFAULT_TEST_PATTERNS = [''src/lib/y.test.ts'']"
    by code_simp
  then have "''src/lib/y.test.ts'' \<in> set (findTestFiles fs_tree ''src'' DEFAULT_TEST_PATTERNS)"
    by simp
  from reported_paths_avoid_excluded_directories[OF this] f show ?thesis by simp
qed

theorem excluded_root_counterexample:
  "js_includes ''dist'' ''dist'' \<and>
   lookup fs_tree ''dist'' = Dir [(''z.test.ts'', File)] \<and>
   findTestFiles fs_tree ''dist'' DEFAULT_TEST_PATTERNS = [''dist/z.test.ts'']"
  by code_simp

subsection \<open>Detectors 4 and 7 exclude each other\<close>

text \<open>
  C10. Detectors 4 and 7 never both fire on a file, and no list of reasons holds
  both of their reasons: detector 4 asks that the path is not recognised as an
  integration test, detector 7 that it is.
\<close>

theorem detectors_4_7_exclusive:
  "(detector4 filePath content = [] \<or> detector7 filePath content = []) \<and>
   \<not> (reason4 \<in> set (collectReasons filePath content) \<and>
      reason7 \<in> set (collectReasons filePath content))"
  by (auto simp: reason4_mem reason7_mem detector4_def detector7_def)

end
